theory Spec2Isabelle
  imports
    Main
    "HOL-Library.Sublist"
    "HOL-Library.Multiset"
    "HOL-Library.Char_ord"
    "HOL-Library.List_Lexorder"
    "HOL-Library.AList"
begin

section \<open>Windows manifest munging: template/cordova/lib/ConfigChanges.js\<close>

text \<open>
  The source file holds two versions of the \<open>PlatformMunger\<close> override. Variant A (the
  first module) works on flat capability lists and consults \<open>CapsNeedUapPrefix\<close>;
  Variant B (the second module) works on whole munges. Both share the demultiplexing
  code of \<open>generate_plugin_config_munge\<close> line for line.

  JavaScript strings are modelled as \<open>string\<close>, one \<open>char\<close> per code unit (code units
  below 256). An uncaught exception is the \<open>Inl\<close> branch of a sum.
\<close>

subsection \<open>Strings and the three regular expressions\<close>

datatype error = TypeError

text \<open>The double quote character of \<open>Name="..."\<close>.\<close>

definition dq :: char where
  "dq = CHR 0x22"

text \<open>\<open>\w\<close> without the unicode flag: \<open>[A-Za-z0-9_]\<close>.\<close>

definition isWordChar :: "char \<Rightarrow> bool" where
  "isWordChar c \<longleftrightarrow>
     (CHR ''a'' \<le> c \<and> c \<le> CHR ''z'') \<or> (CHR ''A'' \<le> c \<and> c \<le> CHR ''Z'') \<or>
     (CHR ''0'' \<le> c \<and> c \<le> CHR ''9'') \<or> c = CHR ''_''"

text \<open>\<open>\s\<close> on code units below 256: TAB, LF, VT, FF, CR, space and NBSP.\<close>

definition isSpaceChar :: "char \<Rightarrow> bool" where
  "isSpaceChar c \<longleftrightarrow>
     c = CHR 0x09 \<or> c = CHR 0x0A \<or> c = CHR 0x0B \<or> c = CHR 0x0C \<or> c = CHR 0x0D \<or>
     c = CHR 0x20 \<or> c = CHR 0xA0"

text \<open>
  The pattern \<open>/Name="(\w+)"/i\<close> tried at the start of the input. The literal part
  \<open>Name="\<close> is matched ignoring the case of its four letters. \<open>\w+\<close> is greedy, and the
  character that has to follow it is not a word character, so only the longest run of
  word characters can lead to a match: backtracking into the run never helps.
\<close>

definition matchNameHere :: "string \<Rightarrow> string option" where
  "matchNameHere s =
     (case s of
        n # a # m # e # q # d # r \<Rightarrow>
          if (n = CHR ''N'' \<or> n = CHR ''n'') \<and> (a = CHR ''A'' \<or> a = CHR ''a'') \<and>
             (m = CHR ''M'' \<or> m = CHR ''m'') \<and> (e = CHR ''E'' \<or> e = CHR ''e'') \<and>
             q = CHR ''='' \<and> d = dq
          then (case dropWhile isWordChar r of
                  [] \<Rightarrow> None
                | t # _ \<Rightarrow> if takeWhile isWordChar r \<noteq> [] \<and> t = dq
                           then Some (takeWhile isWordChar r) else None)
          else None
      | _ \<Rightarrow> None)"

text \<open>
  \<open>String.prototype.match\<close> with a non-global pattern: the leftmost position where the
  pattern matches; \<open>None\<close> is JavaScript's \<open>null\<close>. The value is capture group 1.
\<close>

fun matchName :: "string \<Rightarrow> string option" where
  "matchName [] = None"
| "matchName (c # cs) =
     (case matchNameHere (c # cs) of Some w \<Rightarrow> Some w | None \<Rightarrow> matchName cs)"

text \<open>\<open>/^\s*<Capability\s/.test(s)\<close>: anchored at the start of the input.\<close>

definition testCapabilityTag :: "string \<Rightarrow> bool" where
  "testCapabilityTag s =
     (let r = dropWhile isSpaceChar s in
      prefix ''<Capability'' r \<and>
      (case drop (length ''<Capability'') r of [] \<Rightarrow> False | t # _ \<Rightarrow> isSpaceChar t))"

text \<open>
  \<open>s.replace(/Capability/, 'uap:Capability')\<close>: only the first occurrence of the
  pattern is replaced; the replacement text has no \<open>$\<close> patterns.
\<close>

fun replaceFirst :: "string \<Rightarrow> string \<Rightarrow> string \<Rightarrow> string" where
  "replaceFirst pat rep [] = (if pat = [] then rep else [])"
| "replaceFirst pat rep (c # cs) =
     (if prefix pat (c # cs) then rep @ drop (length pat) (c # cs)
      else c # replaceFirst pat rep cs)"

subsection \<open>Munge changes and the capability name\<close>

text \<open>A change inside a munge, with the three fields the capability code reads.\<close>

record capability =
  xml :: string
  count :: int
  before :: "string option"

text \<open>
  \<open>getCapabilityName\<close>: \<open>capability.xml.match(reg)[1]\<close>. Indexing the \<open>null\<close> of a failed
  match throws a TypeError, which nothing catches.
\<close>

definition getCapabilityName :: "capability \<Rightarrow> error + string" where
  "getCapabilityName capability =
     (case matchName (xml capability) of None \<Rightarrow> Inl TypeError | Some w \<Rightarrow> Inr w)"

subsection \<open>Removing duplicates: \<open>getUniqueCapabilities\<close>\<close>

text \<open>
  The callback of \<open>uniqueCaps.some\<close>, run over \<open>uniqueCaps\<close> from the left until it
  returns true. On an empty array the callback is never called. Each call derives the
  name of \<open>cap\<close> first and that of \<open>currCap\<close> second.
\<close>

fun isRepeated :: "capability list \<Rightarrow> capability \<Rightarrow> error + bool" where
  "isRepeated [] currCap = Inr False"
| "isRepeated (cap # uniqueCaps) currCap =
     (case getCapabilityName cap of
        Inl e \<Rightarrow> Inl e
      | Inr capName \<Rightarrow>
          (case getCapabilityName currCap of
             Inl e \<Rightarrow> Inl e
           | Inr currName \<Rightarrow>
               if capName = currName then Inr True else isRepeated uniqueCaps currCap))"

text \<open>\<open>capabilities.reduce(..., [])\<close>, the accumulator being \<open>uniqueCaps\<close>.\<close>

fun reduceUnique :: "capability list \<Rightarrow> capability list \<Rightarrow> error + capability list" where
  "reduceUnique uniqueCaps [] = Inr uniqueCaps"
| "reduceUnique uniqueCaps (currCap # capabilities) =
     (case isRepeated uniqueCaps currCap of
        Inl e \<Rightarrow> Inl e
      | Inr repeated \<Rightarrow>
          reduceUnique (if repeated then uniqueCaps else uniqueCaps @ [currCap]) capabilities)"

definition getUniqueCapabilities :: "capability list \<Rightarrow> error + capability list" where
  "getUniqueCapabilities capabilities = reduceUnique [] capabilities"

subsection \<open>Sorting: \<open>compareCapabilities\<close> under \<open>Array.prototype.sort\<close>\<close>

text \<open>
  JavaScript compares strings code unit by code unit, a proper prefix being smaller:
  the lexicographic order of \<open>char list\<close>.
\<close>

definition compareCapabilities :: "capability \<Rightarrow> capability \<Rightarrow> error + int" where
  "compareCapabilities firstCap secondCap =
     (case getCapabilityName firstCap of
        Inl e \<Rightarrow> Inl e
      | Inr firstCapName \<Rightarrow>
          (case getCapabilityName secondCap of
             Inl e \<Rightarrow> Inl e
           | Inr secondCapName \<Rightarrow>
               if firstCapName < secondCapName then Inr (- 1)
               else if firstCapName > secondCapName then Inr 1
               else Inr 0))"

text \<open>
  \<open>Array.prototype.sort(comparefn)\<close>. The language leaves the algorithm open and asks
  for a stable result; the model is a stable insertion sort. An element goes in front
  of the first element of the sorted rest that it does not come after, so elements the
  comparator calls equal keep their order. A throwing comparator aborts the sort.
\<close>

fun sortInsert :: "('a \<Rightarrow> 'a \<Rightarrow> error + int) \<Rightarrow> 'a \<Rightarrow> 'a list \<Rightarrow> error + 'a list" where
  "sortInsert comparefn x [] = Inr [x]"
| "sortInsert comparefn x (y # ys) =
     (case comparefn x y of
        Inl e \<Rightarrow> Inl e
      | Inr r \<Rightarrow>
          if r \<le> 0 then Inr (x # y # ys)
          else (case sortInsert comparefn x ys of
                  Inl e \<Rightarrow> Inl e
                | Inr zs \<Rightarrow> Inr (y # zs)))"

fun arraySort :: "('a \<Rightarrow> 'a \<Rightarrow> error + int) \<Rightarrow> 'a list \<Rightarrow> error + 'a list" where
  "arraySort comparefn [] = Inr []"
| "arraySort comparefn (x # xs) =
     (case arraySort comparefn xs of
        Inl e \<Rightarrow> Inl e
      | Inr ys \<Rightarrow> sortInsert comparefn x ys)"

definition sortCapabilities :: "capability list \<Rightarrow> error + capability list" where
  "sortCapabilities capabilities = arraySort compareCapabilities capabilities"

subsection \<open>Prefixing, Variant A: \<open>generateUapCapabilities\<close> on a flat list\<close>

definition hasCapabilityChange :: "capability \<Rightarrow> bool" where
  "hasCapabilityChange change = testCapabilityTag (xml change)"

abbreviation uapXml :: "string \<Rightarrow> string" where
  "uapXml s \<equiv> replaceFirst ''Capability'' ''uap:Capability'' s"

text \<open>
  \<open>CapsNeedUapPrefix\<close> is exported by the \<open>AppxManifest\<close> module, which is not part of the
  sources at hand; it is a parameter here.
\<close>

definition createPrefixedCapabilityChange_A ::
    "string list \<Rightarrow> capability \<Rightarrow> error + capability" where
  "createPrefixedCapabilityChange_A CapsNeedUapPrefix change =
     (case getCapabilityName change of
        Inl e \<Rightarrow> Inl e
      | Inr name \<Rightarrow>
          if name \<notin> set CapsNeedUapPrefix then Inr change
          else Inr \<lparr>xml = uapXml (xml change), count = count change, before = before change\<rparr>)"

text \<open>\<open>Array.prototype.map\<close> with a callback that may throw.\<close>

fun mapThrowing :: "('a \<Rightarrow> error + 'b) \<Rightarrow> 'a list \<Rightarrow> error + 'b list" where
  "mapThrowing f [] = Inr []"
| "mapThrowing f (x # xs) =
     (case f x of
        Inl e \<Rightarrow> Inl e
      | Inr y \<Rightarrow> (case mapThrowing f xs of Inl e \<Rightarrow> Inl e | Inr ys \<Rightarrow> Inr (y # ys)))"

definition generateUapCapabilities_A ::
    "string list \<Rightarrow> capability list \<Rightarrow> error + capability list" where
  "generateUapCapabilities_A CapsNeedUapPrefix capabilities =
     mapThrowing (createPrefixedCapabilityChange_A CapsNeedUapPrefix)
       (filter hasCapabilityChange capabilities)"

subsection \<open>Prefixing, Variant B: \<open>generateUapCapabilities\<close> on a munge\<close>

text \<open>
  A munge is \<open>{ parents: { selector: [change, ...], ... } }\<close>. The object under \<open>parents\<close>
  is modelled by its own enumerable properties, an association list in the order of
  \<open>Object.keys\<close> (a JavaScript object has each key once), and by its prototype: \<open>None\<close>
  is \<open>Object.prototype\<close>, which an object literal and \<open>JSON.parse\<close> give, and \<open>Some a\<close> is
  the array \<open>a\<close>.
\<close>

record parentsObject =
  props :: "(string \<times> capability list) list"
  proto :: "capability list option"

record munge =
  parents :: parentsObject

definition createPrefixedCapabilityChange_B :: "capability \<Rightarrow> capability" where
  "createPrefixedCapabilityChange_B change =
     \<lparr>xml = uapXml (xml change), count = count change, before = before change\<rparr>"

text \<open>
  The assignment \<open>obj[key] = value\<close> of an array to a property of an object that was made
  by the literal \<open>{}\<close>. The key \<open>__proto__\<close> is an accessor property that every such
  object inherits from \<open>Object.prototype\<close>: assigning to it runs the inherited setter,
  which makes the array the prototype of the object and creates no own property. Any
  other key is an own property already, or is found nowhere or as a writable data
  property on the prototype chain; the assignment overwrites the own property in place
  or appends a new one, which is \<open>AList.update\<close>.
\<close>

definition assignProperty :: "string \<Rightarrow> capability list \<Rightarrow> parentsObject \<Rightarrow> parentsObject" where
  "assignProperty key value obj =
     (if key = ''__proto__'' then obj\<lparr>proto := Some value\<rparr>
      else obj\<lparr>props := AList.update key value (props obj)\<rparr>)"

text \<open>
  The reducer. The selectors come from \<open>Object.keys(munge.parents)\<close>, so
  \<open>munge.parents[selector]\<close> reads an own property. Reading a selector that
  \<open>munge.parents\<close> does not have would give a value without \<open>filter\<close>, and the call throws.
\<close>

definition uapReducer :: "munge \<Rightarrow> munge \<Rightarrow> string \<Rightarrow> error + munge" where
  "uapReducer m result selector =
     (case map_of (props (parents m)) selector of
        None \<Rightarrow> Inl TypeError
      | Some changes \<Rightarrow>
          Inr (result\<lparr>parents :=
                 assignProperty selector
                   (map createPrefixedCapabilityChange_B (filter hasCapabilityChange changes))
                   (parents result)\<rparr>))"

fun reduceThrowing :: "('b \<Rightarrow> 'a \<Rightarrow> error + 'b) \<Rightarrow> 'b \<Rightarrow> 'a list \<Rightarrow> error + 'b" where
  "reduceThrowing f acc [] = Inr acc"
| "reduceThrowing f acc (x # xs) =
     (case f acc x of Inl e \<Rightarrow> Inl e | Inr acc' \<Rightarrow> reduceThrowing f acc' xs)"

text \<open>The initial value of the reduction is \<open>{ parents: {} }\<close>.\<close>

definition generateUapCapabilities_B :: "munge \<Rightarrow> error + munge" where
  "generateUapCapabilities_B m =
     reduceThrowing (uapReducer m) \<lparr>parents = \<lparr>props = [], proto = None\<rparr>\<rparr>
       (map fst (props (parents m)))"

subsection \<open>Demultiplexing: \<open>generate_plugin_config_munge\<close>\<close>

text \<open>
  A change of the list \<open>changes\<close>, with the six fields that the override reads and that
  the object literal of \<open>createReplacement\<close> writes. A field that is \<open>undefined\<close> is
  \<open>None\<close>. The XML elements under \<open>xmls\<close> are opaque to this code.
\<close>

record 'x change =
  target :: string
  parent :: "string option"
  after :: "string option"
  xmls :: 'x
  versions :: "string option"
  deviceTarget :: "string option"

text \<open>An entry of the table is one manifest name or an array of them.\<close>

datatype manifest_entry = Single string | Several "string list"

definition MANIFESTS :: "(string \<times> (string \<times> manifest_entry) list) list" where
  "MANIFESTS =
     [(''windows'',
         [(''8.1.0'', Single ''package.windows.appxmanifest''),
          (''10.0.0'', Single ''package.windows10.appxmanifest'')]),
      (''phone'',
         [(''8.1.0'', Single ''package.phone.appxmanifest''),
          (''10.0.0'', Single ''package.windows10.appxmanifest'')]),
      (''all'',
         [(''8.1.0'', Several [''package.windows.appxmanifest'', ''package.phone.appxmanifest'']),
          (''10.0.0'', Single ''package.windows10.appxmanifest'')])]"

definition createReplacement :: "string \<Rightarrow> 'x change \<Rightarrow> 'x change" where
  "createReplacement manifestFile originalChange =
     \<lparr>target = manifestFile,
      parent = parent originalChange,
      after = after originalChange,
      xmls = xmls originalChange,
      versions = versions originalChange,
      deviceTarget = deviceTarget originalChange\<rparr>"

text \<open>
  \<open>forEach\<close> with a body that pushes onto the array \<open>changes\<close>: the body takes the array
  and returns it as it is after the call. A throw ends the loop.
\<close>

fun forEachPush ::
    "('a \<Rightarrow> 'c list \<Rightarrow> error + 'c list) \<Rightarrow> 'a list \<Rightarrow> 'c list \<Rightarrow> error + 'c list" where
  "forEachPush body [] changes = Inr changes"
| "forEachPush body (x # xs) changes =
     (case body x changes of Inl e \<Rightarrow> Inl e | Inr changes' \<Rightarrow> forEachPush body xs changes')"

text \<open>
  The value of \<open>targetDeviceSet\<close> once the fix-up of a value outside the three known
  ones is done.
\<close>

definition targetDeviceSet :: "'x change \<Rightarrow> string" where
  "targetDeviceSet change =
     (let t = (case deviceTarget change of Some d \<Rightarrow> d | None \<Rightarrow> ''all'') in
      if t \<notin> set [''windows'', ''phone'', ''all''] then ''all'' else t)"

text \<open>
  The body of the inner loop, for one \<open>winver\<close>. \<open>satisfies\<close> stands for
  \<open>semver.satisfies\<close>, a function of the semver package, taken as a function that
  answers true or false for a version and a range. Reading a key the table does not
  have gives \<open>undefined\<close>, whose \<open>constructor\<close> cannot be read.
\<close>

definition demuxVersion ::
    "(string \<Rightarrow> string \<Rightarrow> bool) \<Rightarrow> 'x change \<Rightarrow> (string \<times> manifest_entry) list \<Rightarrow>
     string \<Rightarrow> 'x change list \<Rightarrow> error + 'x change list" where
  "demuxVersion satisfies change row winver changes =
     (if (case versions change of None \<Rightarrow> False | Some rangeExpr \<Rightarrow> \<not> satisfies winver rangeExpr)
      then Inr changes
      else (case map_of row winver of
              None \<Rightarrow> Inl TypeError
            | Some (Several versionSpecificManifests) \<Rightarrow>
                Inr (changes @
                     map (\<lambda>manifestFile. createReplacement manifestFile change)
                       versionSpecificManifests)
            | Some (Single versionSpecificManifests) \<Rightarrow>
                Inr (changes @ [createReplacement versionSpecificManifests change])))"

text \<open>
  The body of the outer loop, for one change of \<open>oldChanges\<close>. \<open>Object.keys\<close> of a table
  row lists its keys in the order they are written: neither is an array index.
\<close>

definition demuxChange ::
    "(string \<Rightarrow> string \<Rightarrow> bool) \<Rightarrow> 'x change \<Rightarrow> 'x change list \<Rightarrow> error + 'x change list" where
  "demuxChange satisfies change changes =
     (if target change \<noteq> ''package.appxmanifest'' then Inr (changes @ [change])
      else if \<not> (versions change \<noteq> None \<or> deviceTarget change \<noteq> None)
      then Inr (changes @ [change])
      else (case map_of MANIFESTS (targetDeviceSet change) of
              None \<Rightarrow> Inl TypeError
            | Some row \<Rightarrow>
                forEachPush (demuxVersion satisfies change row) (map fst row) changes))"

definition demux ::
    "(string \<Rightarrow> string \<Rightarrow> bool) \<Rightarrow> 'x change list \<Rightarrow> error + 'x change list" where
  "demux satisfies oldChanges = forEachPush (demuxChange satisfies) oldChanges []"

text \<open>
  The override itself. Its result is the result of the base class's method, which is
  not part of the sources at hand; the model returns the arguments of that call.
  \<open>edit_config_changes\<close> is an array or \<open>undefined\<close>; the push changes the caller's array
  \<open>changes\<close>, of which the model keeps the new value.
\<close>

definition hasQualifier :: "'x change \<Rightarrow> bool" where
  "hasQualifier change \<longleftrightarrow> versions change \<noteq> None \<or> deviceTarget change \<noteq> None"

record ('x, 'v) super_call_A =
  changes_A :: "'x change list"
  vars_A :: 'v
  edit_config_changes_A :: "'x change list option"

definition generate_plugin_config_munge_A ::
    "(string \<Rightarrow> string \<Rightarrow> bool) \<Rightarrow> 'x change list \<Rightarrow> 'v \<Rightarrow> 'x change list option \<Rightarrow>
     error + ('x, 'v) super_call_A" where
  "generate_plugin_config_munge_A satisfies changes vars edit_config_changes =
     (let changes = (case edit_config_changes of
                       None \<Rightarrow> changes
                     | Some pushed \<Rightarrow> changes @ pushed) in
      if list_ex hasQualifier changes
      then (case demux satisfies changes of
              Inl e \<Rightarrow> Inl e
            | Inr changes' \<Rightarrow>
                Inr \<lparr>changes_A = changes', vars_A = vars, edit_config_changes_A = None\<rparr>)
      else Inr \<lparr>changes_A = changes, vars_A = vars,
                edit_config_changes_A = edit_config_changes\<rparr>)"

record ('x, 'p, 'v) super_call_B =
  changes_B :: "'x change list"
  plugin_id_B :: 'p
  vars_B :: 'v
  edit_config_changes_B :: "'x change list option"

definition generate_plugin_config_munge_B ::
    "(string \<Rightarrow> string \<Rightarrow> bool) \<Rightarrow> 'x change list \<Rightarrow> 'p \<Rightarrow> 'v \<Rightarrow> 'x change list option \<Rightarrow>
     error + ('x, 'p, 'v) super_call_B" where
  "generate_plugin_config_munge_B satisfies changes plugin_id vars edit_config_changes =
     (let changes = (case edit_config_changes of
                       None \<Rightarrow> changes
                     | Some pushed \<Rightarrow> changes @ pushed) in
      if list_ex hasQualifier changes
      then (case demux satisfies changes of
              Inl e \<Rightarrow> Inl e
            | Inr changes' \<Rightarrow>
                Inr \<lparr>changes_B = changes', plugin_id_B = plugin_id, vars_B = vars,
                     edit_config_changes_B = None\<rparr>)
      else Inr \<lparr>changes_B = changes, plugin_id_B = plugin_id, vars_B = vars,
                edit_config_changes_B = edit_config_changes\<rparr>)"

section \<open>Descriptions to compare the code with\<close>

subsection \<open>The demultiplexer in the words of its description\<close>

text \<open>
  The description of the demultiplexer, for comparison with the loops above: a change
  is expanded when it targets the abstract manifest and has a version range or a device
  target; the manifest ids it resolves to are those of the table row of its device
  family, over the row's versions in table order, leaving out a version that the range
  does not admit; each id gives one copy of the change with the target replaced.
\<close>

definition manifestIds :: "manifest_entry \<Rightarrow> string list" where
  "manifestIds entry = (case entry of Single m \<Rightarrow> [m] | Several ms \<Rightarrow> ms)"

definition resolvedManifests :: "(string \<Rightarrow> string \<Rightarrow> bool) \<Rightarrow> 'x change \<Rightarrow> string list" where
  "resolvedManifests satisfies change =
     concat (map (\<lambda>(winver, entry).
                    if (case versions change of
                          None \<Rightarrow> False
                        | Some rangeExpr \<Rightarrow> \<not> satisfies winver rangeExpr)
                    then [] else manifestIds entry)
               (case map_of MANIFESTS (targetDeviceSet change) of
                  None \<Rightarrow> []
                | Some row \<Rightarrow> row))"

definition isExpanded :: "'x change \<Rightarrow> bool" where
  "isExpanded change \<longleftrightarrow> target change = ''package.appxmanifest'' \<and> hasQualifier change"

definition demuxSpec :: "(string \<Rightarrow> string \<Rightarrow> bool) \<Rightarrow> 'x change \<Rightarrow> 'x change list" where
  "demuxSpec satisfies change =
     (if isExpanded change
      then map (\<lambda>m. change\<lparr>target := m\<rparr>) (resolvedManifests satisfies change)
      else [change])"

text \<open>How often a change is handed to the base method, over both array arguments.\<close>

definition occurrences :: "'x change list \<Rightarrow> 'x change list option \<Rightarrow> 'x change \<Rightarrow> nat" where
  "occurrences changes edit_config_changes e =
     count_list changes e +
     (case edit_config_changes of None \<Rightarrow> 0 | Some pushed \<Rightarrow> count_list pushed e)"

subsection \<open>The name attribute in the words of its description\<close>

text \<open>
  A substring that matches the name-extraction pattern: the six characters \<open>Name="\<close> in
  any letter case, a non-empty run \<open>w\<close> of word characters, and a closing double quote.
  \<open>pre\<close> is what stands before the match, so its length is the position of the match.
\<close>

definition isNameLiteral :: "string \<Rightarrow> bool" where
  "isNameLiteral l \<longleftrightarrow>
     (case l of
        [n, a, m, e, q, d] \<Rightarrow>
          (n = CHR ''N'' \<or> n = CHR ''n'') \<and> (a = CHR ''A'' \<or> a = CHR ''a'') \<and>
          (m = CHR ''M'' \<or> m = CHR ''m'') \<and> (e = CHR ''E'' \<or> e = CHR ''e'') \<and>
          q = CHR ''='' \<and> d = dq
      | _ \<Rightarrow> False)"

definition nameMatchAt :: "string \<Rightarrow> string \<Rightarrow> string \<Rightarrow> bool" where
  "nameMatchAt s pre w \<longleftrightarrow>
     (\<exists>l post. s = pre @ l @ w @ dq # post \<and> isNameLiteral l \<and>
                w \<noteq> [] \<and> list_all isWordChar w)"

subsection \<open>Deduplication and sorting in the words of their description\<close>

text \<open>The derivation of the name succeeds.\<close>

definition hasName :: "capability \<Rightarrow> bool" where
  "hasName c \<longleftrightarrow> (case getCapabilityName c of Inl e \<Rightarrow> False | Inr w \<Rightarrow> True)"

text \<open>The derived name where there is one, as a sorting key.\<close>

definition nameKey :: "capability \<Rightarrow> string" where
  "nameKey c = (case getCapabilityName c of Inl e \<Rightarrow> [] | Inr w \<Rightarrow> w)"

text \<open>
  The elements of a list that are the first with their key, in the order of the list:
  the element at index \<open>i\<close> stays when no element before it has its key.
\<close>

definition firstOccurrences :: "('a \<Rightarrow> 'k) \<Rightarrow> 'a list \<Rightarrow> 'a list" where
  "firstOccurrences key xs =
     map (nth xs) (filter (\<lambda>i. key (xs ! i) \<notin> key ` set (take i xs)) [0..<length xs])"

subsection \<open>Prefixed capability changes\<close>

text \<open>
  What it means for a change to carry the prefix: its \<open>xml\<close> passes the test for a
  capability element with the prefixed tag name, \<open>/^\s*<uap:Capability\s/\<close>.
\<close>

definition testUapCapabilityTag :: "string \<Rightarrow> bool" where
  "testUapCapabilityTag s =
     (let r = dropWhile isSpaceChar s in
      prefix ''<uap:Capability'' r \<and>
      (case drop (length ''<uap:Capability'') r of [] \<Rightarrow> False | t # _ \<Rightarrow> isSpaceChar t))"

text \<open>What Variant B puts under a selector whose changes are \<open>changes\<close>.\<close>

definition uapChanges :: "capability list \<Rightarrow> capability list" where
  "uapChanges changes =
     map createPrefixedCapabilityChange_B (filter hasCapabilityChange changes)"

section \<open>Concrete inputs\<close>

text \<open>
  A stand-in for \<open>semver.satisfies\<close> on the inputs used below, where every range is one
  full version: such a range admits that version and no other.
\<close>

definition exactVersion :: "string \<Rightarrow> string \<Rightarrow> bool" where
  "exactVersion winver rangeExpr \<longleftrightarrow> winver = rangeExpr"

text \<open>Changes of plugins and of a project's configuration.\<close>

definition internetClientChange :: "string list change" where
  "internetClientChange =
     \<lparr>target = ''package.appxmanifest'', parent = Some ''/Package/Capabilities'',
      after = None, xmls = [''<Capability Name=\"internetClient\"/>''],
      versions = Some ''10.0.0'', deviceTarget = Some ''all''\<rparr>"

definition legacyChange :: "string list change" where
  "legacyChange =
     \<lparr>target = ''package.appxmanifest'', parent = Some ''/Package/Capabilities'',
      after = Some ''Capability'', xmls = [''<Capability Name=\"musicLibrary\"/>''],
      versions = Some ''8.1.0'', deviceTarget = None\<rparr>"

definition bogusChange :: "string list change" where
  "bogusChange =
     \<lparr>target = ''package.appxmanifest'', parent = Some ''/Package/Capabilities'',
      after = None, xmls = [''<Capability Name=\"webcam\"/>''],
      versions = Some ''10.0.0'', deviceTarget = Some ''bogus''\<rparr>"

definition editConfigChange :: "string list change" where
  "editConfigChange =
     \<lparr>target = ''/Package/Applications/Application'', parent = None,
      after = None, xmls = [''<Application Id=\"App\"/>''],
      versions = None, deviceTarget = None\<rparr>"

text \<open>Three capability changes, two of them with the same name.\<close>

definition microphoneCap :: capability where
  "microphoneCap = \<lparr>xml = ''<Capability Name=\"microphone\" />'', count = 1, before = None\<rparr>"

definition internetClientCap :: capability where
  "internetClientCap =
     \<lparr>xml = ''<Capability Name=\"internetClient\" />'', count = 1, before = None\<rparr>"

definition microphoneAgainCap :: capability where
  "microphoneAgainCap =
     \<lparr>xml = ''  <Capability   Name=\"microphone\"/>'', count = 2, before = None\<rparr>"

definition extensionCap :: capability where
  "extensionCap =
     \<lparr>xml = ''<Extension Category=\"windows.fileTypeAssociation\" />'', count = 1,
      before = None\<rparr>"

definition unnamedCap :: capability where
  "unnamedCap = \<lparr>xml = ''<Capability Id=\"microphone\" />'', count = 1, before = None\<rparr>"

definition musicLibraryCap :: capability where
  "musicLibraryCap = \<lparr>xml = ''<Capability Name=\"musicLibrary\" />'', count = 1, before = None\<rparr>"

text \<open>
  A value for \<open>CapsNeedUapPrefix\<close> in concrete calls: four library capabilities.
\<close>

definition someCapsNeedUapPrefix :: "string list" where
  "someCapsNeedUapPrefix =
     [''documentsLibrary'', ''picturesLibrary'', ''videosLibrary'', ''musicLibrary'']"

text \<open>A munge with a selector that has capability changes and one that has none.\<close>

definition someMunge :: munge where
  "someMunge =
     \<lparr>parents =
        \<lparr>props =
           [(''/Package/Capabilities'', [internetClientCap, extensionCap, microphoneAgainCap]),
            (''/Package/Extensions'', [extensionCap])],
         proto = None\<rparr>\<rparr>"

text \<open>
  A munge as \<open>JSON.parse\<close> gives it for a text in which one selector is \<open>__proto__\<close>:
  the selector is an own property of the \<open>parents\<close> object.
\<close>

definition protoMunge :: munge where
  "protoMunge =
     \<lparr>parents =
        \<lparr>props =
           [(''/Package/Capabilities'', [internetClientCap]),
            (''__proto__'', [extensionCap])],
         proto = None\<rparr>\<rparr>"

section \<open>Properties\<close>

subsection \<open>The demultiplexer\<close>

lemma targetDeviceSet_cases:
  "targetDeviceSet c = ''windows'' \<or> targetDeviceSet c = ''phone'' \<or> targetDeviceSet c = ''all''"
  by (auto simp: targetDeviceSet_def Let_def)

lemma createReplacement_update: "createReplacement m c = c\<lparr>target := m\<rparr>"
  by (simp add: createReplacement_def)

text \<open>The inner loop, for each of the three rows of the table.\<close>

lemma demuxChange_expand:
  assumes "isExpanded c"
  shows "demuxChange satisfies c changes =
           Inr (changes @ map (\<lambda>m. c\<lparr>target := m\<rparr>) (resolvedManifests satisfies c))"
proof -
  note unfolds = isExpanded_def demuxChange_def hasQualifier_def MANIFESTS_def
    demuxVersion_def resolvedManifests_def manifestIds_def createReplacement_update
  consider "targetDeviceSet c = ''windows''" | "targetDeviceSet c = ''phone''"
    | "targetDeviceSet c = ''all''"
    using targetDeviceSet_cases by blast
  then show ?thesis
  proof cases
    case 1
    with assms show ?thesis
      by (cases "versions c") (simp_all add: unfolds)
  next
    case 2
    with assms show ?thesis
      by (cases "versions c") (simp_all add: unfolds)
  next
    case 3
    with assms show ?thesis
      by (cases "versions c") (simp_all add: unfolds)
  qed
qed

lemma demuxChange_pass:
  "\<not> isExpanded c \<Longrightarrow> demuxChange satisfies c changes = Inr (changes @ [c])"
  by (auto simp: isExpanded_def demuxChange_def hasQualifier_def)

lemma demuxChange_spec:
  "demuxChange satisfies c changes = Inr (changes @ demuxSpec satisfies c)"
  by (simp add: demuxSpec_def demuxChange_expand demuxChange_pass)

lemma forEachPush_demuxChange:
  "forEachPush (demuxChange satisfies) cs changes =
     Inr (changes @ concat (map (demuxSpec satisfies) cs))"
  by (induction cs arbitrary: changes) (simp_all add: demuxChange_spec)

text \<open>The demultiplexer never throws, and does what its description says.\<close>

lemma demux_spec: "demux satisfies cs = Inr (concat (map (demuxSpec satisfies) cs))"
  by (simp add: demux_def forEachPush_demuxChange)

lemma resolved_all_10:
  assumes "satisfies ''10.0.0'' ''10.0.0''" and "\<not> satisfies ''8.1.0'' ''10.0.0''"
    and "deviceTarget c = Some ''all''" and "versions c = Some ''10.0.0''"
  shows "resolvedManifests satisfies c = [''package.windows10.appxmanifest'']"
  using assms
  by (simp add: resolvedManifests_def targetDeviceSet_def MANIFESTS_def manifestIds_def)

text \<open>
  Claim C1. A change that targets \<open>package.appxmanifest\<close> with device target \<open>all\<close> and
  versions \<open>10.0.0\<close> is demultiplexed into exactly one change, which targets
  \<open>package.windows10.appxmanifest\<close>; no change targets \<open>package.windows.appxmanifest\<close> or
  \<open>package.phone.appxmanifest\<close>; that list is what the override hands to the base
  method. The two premises on \<open>satisfies\<close> say what the semver package answers for the
  range \<open>10.0.0\<close> on the two versions of the table.
\<close>

theorem demux_coverage:
  assumes "satisfies ''10.0.0'' ''10.0.0''" and "\<not> satisfies ''8.1.0'' ''10.0.0''"
    and "target c = ''package.appxmanifest''"
    and "deviceTarget c = Some ''all''" and "versions c = Some ''10.0.0''"
  shows "\<exists>out. demux satisfies [c] = Inr out \<and>
           generate_plugin_config_munge_A satisfies [c] vars None =
             Inr \<lparr>changes_A = out, vars_A = vars, edit_config_changes_A = None\<rparr> \<and>
           out = [c\<lparr>target := ''package.windows10.appxmanifest''\<rparr>] \<and>
           length (filter (\<lambda>r. target r = ''package.windows10.appxmanifest'') out) = 1 \<and>
           filter (\<lambda>r. target r = ''package.windows.appxmanifest'' \<or>
                        target r = ''package.phone.appxmanifest'') out = []"
proof -
  have q: "hasQualifier c"
    using assms by (simp add: hasQualifier_def)
  then have "isExpanded c"
    using assms by (simp add: isExpanded_def)
  then have "demuxSpec satisfies c = [c\<lparr>target := ''package.windows10.appxmanifest''\<rparr>]"
    using assms by (simp add: demuxSpec_def resolved_all_10)
  then show ?thesis
    using q by (simp add: demux_spec generate_plugin_config_munge_A_def)
qed

theorem demux_coverage_witness:
  "demux exactVersion [internetClientChange] =
     Inr [internetClientChange\<lparr>target := ''package.windows10.appxmanifest''\<rparr>]"
  using demux_coverage [of exactVersion internetClientChange "()"]
  by (simp add: exactVersion_def internetClientChange_def)

text \<open>
  Claim C2. For a change that the demultiplexer expands (it targets
  \<open>package.appxmanifest\<close> and has \<open>versions\<close> or \<open>deviceTarget\<close> set), the loop body pushes
  one replacement per resolved manifest id, in order; the replacement's target is that
  id, and its \<open>parent\<close>, \<open>after\<close>, \<open>xmls\<close>, \<open>versions\<close> and \<open>deviceTarget\<close> are those of
  the original change.
\<close>

theorem replacement_fields:
  assumes "target c = ''package.appxmanifest''" and "hasQualifier c"
  shows "\<exists>reps. demuxChange satisfies c changes = Inr (changes @ reps) \<and>
           map target reps = resolvedManifests satisfies c \<and>
           (\<forall>r \<in> set reps. parent r = parent c \<and> after r = after c \<and> xmls r = xmls c \<and>
                            versions r = versions c \<and> deviceTarget r = deviceTarget c)"
proof -
  have "isExpanded c"
    using assms by (simp add: isExpanded_def)
  then have "demuxChange satisfies c changes =
      Inr (changes @ map (\<lambda>m. c\<lparr>target := m\<rparr>) (resolvedManifests satisfies c))"
    by (rule demuxChange_expand)
  moreover have "map target (map (\<lambda>m. c\<lparr>target := m\<rparr>) (resolvedManifests satisfies c)) =
      resolvedManifests satisfies c"
    by (simp add: comp_def)
  ultimately show ?thesis
    by auto
qed

theorem replacement_fields_witness:
  "demuxChange exactVersion legacyChange [] =
     Inr [legacyChange\<lparr>target := ''package.windows.appxmanifest''\<rparr>,
          legacyChange\<lparr>target := ''package.phone.appxmanifest''\<rparr>]"
  using replacement_fields [of legacyChange exactVersion "[]"]
  apply (simp add: exactVersion_def legacyChange_def hasQualifier_def resolvedManifests_def
      MANIFESTS_def manifestIds_def targetDeviceSet_def)
  apply (auto simp: map_eq_Cons_conv)
  done

lemma targetDeviceSet_fallback:
  assumes "deviceTarget c \<notin> {Some ''windows'', Some ''phone'', Some ''all''}"
  shows "targetDeviceSet c = ''all''"
  using assms by (cases "deviceTarget c") (auto simp: targetDeviceSet_def Let_def)

lemma targetDeviceSet_all: "targetDeviceSet (c\<lparr>deviceTarget := Some ''all''\<rparr>) = ''all''"
  by (simp add: targetDeviceSet_def)

lemma resolvedManifests_fallback:
  assumes "deviceTarget c \<notin> {Some ''windows'', Some ''phone'', Some ''all''}"
  shows "resolvedManifests satisfies (c\<lparr>deviceTarget := Some ''all''\<rparr>) =
         resolvedManifests satisfies c"
  by (simp add: resolvedManifests_def targetDeviceSet_all targetDeviceSet_fallback [OF assms])

text \<open>
  Claim C7, as the code has it. A change that targets \<open>package.appxmanifest\<close>, has
  \<open>versions\<close> or \<open>deviceTarget\<close> set, and whose \<open>deviceTarget\<close> is none of \<open>windows\<close>,
  \<open>phone\<close>, \<open>all\<close> is never rejected, and it is demultiplexed into the changes that the
  same change with \<open>deviceTarget\<close> \<open>all\<close> gives, in the same order and equal in every
  field but one: each emitted change keeps the \<open>deviceTarget\<close> of its own original.
\<close>

theorem demux_fallback:
  assumes "target c = ''package.appxmanifest''" and "hasQualifier c"
    and "deviceTarget c \<notin> {Some ''windows'', Some ''phone'', Some ''all''}"
  shows "\<exists>out. demux satisfies [c] = Inr out \<and>
           demux satisfies [c\<lparr>deviceTarget := Some ''all''\<rparr>] =
             Inr (map (\<lambda>r. r\<lparr>deviceTarget := Some ''all''\<rparr>) out) \<and>
           (\<forall>r \<in> set out. deviceTarget r = deviceTarget c)"
proof -
  have c: "isExpanded c"
    using assms by (simp add: isExpanded_def)
  have c': "isExpanded (c\<lparr>deviceTarget := Some ''all''\<rparr>)"
    using assms by (simp add: isExpanded_def hasQualifier_def)
  have "demuxSpec satisfies (c\<lparr>deviceTarget := Some ''all''\<rparr>) =
      map (\<lambda>r. r\<lparr>deviceTarget := Some ''all''\<rparr>) (demuxSpec satisfies c)"
    using c c' by (simp add: demuxSpec_def resolvedManifests_fallback [OF assms(3)] comp_def)
  moreover have "\<forall>r \<in> set (demuxSpec satisfies c). deviceTarget r = deviceTarget c"
    using c by (auto simp: demuxSpec_def)
  ultimately show ?thesis
    by (simp add: demux_spec)
qed

theorem demux_fallback_witness:
  "demux exactVersion [bogusChange] =
     Inr [bogusChange\<lparr>target := ''package.windows10.appxmanifest''\<rparr>] \<and>
   demux exactVersion [bogusChange\<lparr>deviceTarget := Some ''all''\<rparr>] =
     Inr [bogusChange\<lparr>target := ''package.windows10.appxmanifest'',
                      deviceTarget := Some ''all''\<rparr>]"
  using demux_fallback [of bogusChange exactVersion]
  by (simp add: demux_spec demuxSpec_def isExpanded_def hasQualifier_def resolvedManifests_def
      MANIFESTS_def manifestIds_def targetDeviceSet_def exactVersion_def bogusChange_def)

text \<open>
  The outputs are not literally the same: the replacement copies the unresolved
  \<open>deviceTarget\<close> value.
\<close>

theorem demux_fallback_counterexample:
  "demux exactVersion [bogusChange] \<noteq>
   demux exactVersion [bogusChange\<lparr>deviceTarget := Some ''all''\<rparr>]"
  by (simp add: demux_spec demuxSpec_def isExpanded_def hasQualifier_def resolvedManifests_def
      MANIFESTS_def manifestIds_def targetDeviceSet_def exactVersion_def bogusChange_def)

subsection \<open>What reaches the base method\<close>

text \<open>
  Claim C10 at a concrete call: no change has \<open>versions\<close> or \<open>deviceTarget\<close>, the
  override pushes the one edit-config change onto \<open>changes\<close> and then passes
  \<open>edit_config_changes\<close> as well, so the base method receives that change twice, in
  both variants.
\<close>

theorem edit_config_handed_over_twice:
  "generate_plugin_config_munge_A exactVersion [] () (Some [editConfigChange]) =
     Inr \<lparr>changes_A = [editConfigChange], vars_A = (),
          edit_config_changes_A = Some [editConfigChange]\<rparr> \<and>
   occurrences [editConfigChange] (Some [editConfigChange]) editConfigChange = 2 \<and>
   generate_plugin_config_munge_B exactVersion [] () () (Some [editConfigChange]) =
     Inr \<lparr>changes_B = [editConfigChange], plugin_id_B = (), vars_B = (),
          edit_config_changes_B = Some [editConfigChange]\<rparr>"
  by (simp add: Let_def generate_plugin_config_munge_A_def generate_plugin_config_munge_B_def
      hasQualifier_def editConfigChange_def occurrences_def)

text \<open>The same for any call of Variant A on that path, and the other path for contrast.\<close>

lemma edit_config_twice_general_A:
  assumes "\<not> list_ex hasQualifier (changes @ pushed)"
  shows "generate_plugin_config_munge_A satisfies changes vars (Some pushed) =
     Inr \<lparr>changes_A = changes @ pushed, vars_A = vars, edit_config_changes_A = Some pushed\<rparr> \<and>
     occurrences (changes @ pushed) (Some pushed) e = count_list changes e + 2 * count_list pushed e"
  using assms
  by (simp add: Let_def generate_plugin_config_munge_A_def occurrences_def del: list_ex_append)

lemma edit_config_once_demux_A:
  assumes "list_ex hasQualifier (changes @ pushed)"
  shows "generate_plugin_config_munge_A satisfies changes vars (Some pushed) =
     Inr \<lparr>changes_A = concat (map (demuxSpec satisfies) (changes @ pushed)), vars_A = vars,
          edit_config_changes_A = None\<rparr>"
  using assms
  by (simp add: Let_def generate_plugin_config_munge_A_def demux_spec del: list_ex_append)

subsection \<open>The capability name\<close>

lemma dq_not_word: "\<not> isWordChar dq"
  by (simp add: isWordChar_def dq_def)

lemma isNameLiteral_length: "isNameLiteral l \<Longrightarrow> length l = 6"
  by (auto simp: isNameLiteral_def split: list.splits)

lemma takeWhile_word_run:
  assumes "list_all isWordChar w"
  shows "takeWhile isWordChar (w @ dq # post) = w"
    and "dropWhile isWordChar (w @ dq # post) = dq # post"
  using assms dq_not_word by (induction w) simp_all

lemma matchNameHere_iff: "matchNameHere s = Some w \<longleftrightarrow> nameMatchAt s [] w"
proof
  assume h: "matchNameHere s = Some w"
  then obtain n a m e q d r where s: "s = n # a # m # e # q # d # r"
    by (auto simp: matchNameHere_def split: list.splits)
  from h s have lit: "isNameLiteral [n, a, m, e, q, d]"
    by (auto simp: matchNameHere_def isNameLiteral_def split: if_splits)
  from h s lit obtain t ts where d: "dropWhile isWordChar r = t # ts"
    by (auto simp: matchNameHere_def isNameLiteral_def split: list.splits if_splits)
  from h s lit d have w: "w = takeWhile isWordChar r" "w \<noteq> []" "t = dq"
    by (auto simp: matchNameHere_def isNameLiteral_def split: if_splits)
  have "r = w @ dq # ts"
    using takeWhile_dropWhile_id [of isWordChar r] d w by simp
  moreover have "list_all isWordChar w"
    unfolding w(1) list_all_iff by (auto dest: set_takeWhileD)
  ultimately show "nameMatchAt s [] w"
    unfolding nameMatchAt_def using s lit w(2) by (intro exI [of _ "[n, a, m, e, q, d]"] exI [of _ ts]) simp
next
  assume "nameMatchAt s [] w"
  then obtain l post where s: "s = l @ w @ dq # post" and lit: "isNameLiteral l"
    and w: "w \<noteq> []" "list_all isWordChar w"
    by (auto simp: nameMatchAt_def)
  from lit obtain n a m e q d where l: "l = [n, a, m, e, q, d]"
    by (auto simp: isNameLiteral_def split: list.splits)
  show "matchNameHere s = Some w"
    using lit w unfolding s l
    by (simp add: matchNameHere_def isNameLiteral_def takeWhile_word_run)
qed

lemma nameMatchAt_Cons: "nameMatchAt (c # cs) (c' # pre) w \<longleftrightarrow> c' = c \<and> nameMatchAt cs pre w"
  by (auto simp: nameMatchAt_def)

lemma nameMatchAt_Nil: "\<not> nameMatchAt [] pre w"
  by (auto simp: nameMatchAt_def)

lemma nameMatchAt_unique: "nameMatchAt s pre w \<Longrightarrow> nameMatchAt s pre w' \<Longrightarrow> w = w'"
proof (induction pre arbitrary: s)
  case Nil
  then show ?case by (metis matchNameHere_iff option.inject)
next
  case (Cons c pre)
  then show ?case by (cases s) (auto simp: nameMatchAt_Nil nameMatchAt_Cons)
qed

lemma matchName_None_iff: "matchName s = None \<longleftrightarrow> (\<forall>pre w. \<not> nameMatchAt s pre w)"
proof (induction s)
  case Nil
  show ?case by (simp add: nameMatchAt_Nil)
next
  case (Cons c cs)
  show ?case
  proof (cases "matchNameHere (c # cs)")
    case None
    then have here: "\<And>w. \<not> nameMatchAt (c # cs) [] w"
      by (simp flip: matchNameHere_iff)
    have "(\<forall>pre w. \<not> nameMatchAt (c # cs) pre w) \<longleftrightarrow> (\<forall>pre w. \<not> nameMatchAt cs pre w)"
    proof
      assume a: "\<forall>pre w. \<not> nameMatchAt (c # cs) pre w"
      show "\<forall>pre w. \<not> nameMatchAt cs pre w"
      proof (intro allI)
        fix pre w
        from a have "\<not> nameMatchAt (c # cs) (c # pre) w" by blast
        then show "\<not> nameMatchAt cs pre w" by (simp add: nameMatchAt_Cons)
      qed
    next
      assume a: "\<forall>pre w. \<not> nameMatchAt cs pre w"
      show "\<forall>pre w. \<not> nameMatchAt (c # cs) pre w"
      proof (intro allI)
        fix pre w
        show "\<not> nameMatchAt (c # cs) pre w"
          using a here by (cases pre) (auto simp: nameMatchAt_Cons)
      qed
    qed
    with None Cons show ?thesis by simp
  next
    case (Some w)
    then have "nameMatchAt (c # cs) [] w" by (simp add: matchNameHere_iff)
    with Some show ?thesis by auto
  qed
qed

text \<open>The value is that of the leftmost match.\<close>

lemma matchName_Some_iff:
  "matchName s = Some w \<longleftrightarrow>
     (\<exists>pre. nameMatchAt s pre w \<and>
            (\<forall>pre' w'. nameMatchAt s pre' w' \<longrightarrow> length pre \<le> length pre'))"
proof (induction s)
  case Nil
  show ?case by (simp add: nameMatchAt_Nil)
next
  case (Cons c cs)
  show ?case
  proof (cases "matchNameHere (c # cs)")
    case None
    then have here: "\<And>w. \<not> nameMatchAt (c # cs) [] w"
      by (simp flip: matchNameHere_iff)
    have "(\<exists>pre. nameMatchAt (c # cs) pre w \<and>
            (\<forall>pre' w'. nameMatchAt (c # cs) pre' w' \<longrightarrow> length pre \<le> length pre')) \<longleftrightarrow>
          (\<exists>pre. nameMatchAt cs pre w \<and>
            (\<forall>pre' w'. nameMatchAt cs pre' w' \<longrightarrow> length pre \<le> length pre'))"
      (is "?L \<longleftrightarrow> ?R")
    proof
      assume ?L
      then obtain pre where p: "nameMatchAt (c # cs) pre w"
        and least: "\<And>pre' w'. nameMatchAt (c # cs) pre' w' \<Longrightarrow> length pre \<le> length pre'"
        by blast
      from p here obtain pre0 where pre: "pre = c # pre0" and p0: "nameMatchAt cs pre0 w"
        by (cases pre) (auto simp: nameMatchAt_Cons)
      have "length pre0 \<le> length pre'" if "nameMatchAt cs pre' w'" for pre' w'
        using least [of "c # pre'" w'] that pre by (simp add: nameMatchAt_Cons)
      with p0 show ?R by blast
    next
      assume ?R
      then obtain pre where p: "nameMatchAt cs pre w"
        and least: "\<And>pre' w'. nameMatchAt cs pre' w' \<Longrightarrow> length pre \<le> length pre'"
        by blast
      have "length (c # pre) \<le> length pre'" if "nameMatchAt (c # cs) pre' w'" for pre' w'
        using that here least by (cases pre') (auto simp: nameMatchAt_Cons)
      moreover have "nameMatchAt (c # cs) (c # pre) w"
        using p by (simp add: nameMatchAt_Cons)
      ultimately show ?L by blast
    qed
    with None Cons show ?thesis by simp
  next
    case (Some w0)
    then have m: "nameMatchAt (c # cs) [] w0" by (simp add: matchNameHere_iff)
    show ?thesis
    proof
      assume "matchName (c # cs) = Some w"
      with Some have "w = w0" by simp
      with m show "\<exists>pre. nameMatchAt (c # cs) pre w \<and>
            (\<forall>pre' w'. nameMatchAt (c # cs) pre' w' \<longrightarrow> length pre \<le> length pre')"
        by (intro exI [of _ "[]"]) simp
    next
      assume "\<exists>pre. nameMatchAt (c # cs) pre w \<and>
            (\<forall>pre' w'. nameMatchAt (c # cs) pre' w' \<longrightarrow> length pre \<le> length pre')"
      then obtain pre where p: "nameMatchAt (c # cs) pre w" and "length pre \<le> length ([]::string)"
        using m by blast
      then have "nameMatchAt (c # cs) [] w" by simp
      then have "w = w0" using m by (rule nameMatchAt_unique)
      with Some show "matchName (c # cs) = Some w" by simp
    qed
  qed
qed

subsection \<open>Deduplication\<close>

lemma error_is_TypeError: "(e::error) = TypeError"
  by (cases e) simp

lemma hasName_iff: "hasName c \<longleftrightarrow> (\<exists>w. getCapabilityName c = Inr w)"
  by (cases "getCapabilityName c") (simp_all add: hasName_def)

lemma not_hasName: "\<not> hasName c \<longleftrightarrow> getCapabilityName c = Inl TypeError"
  by (cases "getCapabilityName c") (auto simp: hasName_def error_is_TypeError)

lemma hasName_matchName: "hasName c \<longleftrightarrow> matchName (xml c) \<noteq> None"
  by (auto simp: hasName_def getCapabilityName_def split: option.splits)

lemma hasName_nameKey: "hasName c \<Longrightarrow> getCapabilityName c = Inr (nameKey c)"
  by (cases "getCapabilityName c") (simp_all add: hasName_def nameKey_def)

lemma isRepeated_named:
  assumes "list_all hasName uniqueCaps" and "hasName currCap"
  shows "isRepeated uniqueCaps currCap =
           Inr (getCapabilityName currCap \<in> getCapabilityName ` set uniqueCaps)"
  using assms
proof (induction uniqueCaps)
  case Nil
  show ?case by simp
next
  case (Cons cap uniqueCaps)
  then obtain a b where "getCapabilityName cap = Inr a" "getCapabilityName currCap = Inr b"
    by (auto simp: hasName_iff)
  with Cons show ?case by auto
qed

lemma isRepeated_unnamed:
  assumes "uniqueCaps \<noteq> []" and "\<not> hasName currCap \<or> \<not> hasName (hd uniqueCaps)"
  shows "isRepeated uniqueCaps currCap = Inl TypeError"
  using assms
  by (cases uniqueCaps) (auto simp: not_hasName error_is_TypeError split: sum.splits)

lemma firstOccurrences_Nil: "firstOccurrences key [] = []"
  by (simp add: firstOccurrences_def)

lemma firstOccurrences_snoc:
  "firstOccurrences key (xs @ [x]) =
     firstOccurrences key xs @ (if key x \<in> key ` set xs then [] else [x])"
proof -
  have "filter (\<lambda>i. key ((xs @ [x]) ! i) \<notin> key ` set (take i (xs @ [x]))) [0..<length xs] =
        filter (\<lambda>i. key (xs ! i) \<notin> key ` set (take i xs)) [0..<length xs]"
    by (rule filter_cong) (auto simp: nth_append)
  moreover have "map (nth (xs @ [x])) (filter (\<lambda>i. key (xs ! i) \<notin> key ` set (take i xs)) [0..<length xs]) =
        map (nth xs) (filter (\<lambda>i. key (xs ! i) \<notin> key ` set (take i xs)) [0..<length xs])"
    by (rule map_cong) (auto simp: nth_append)
  ultimately show ?thesis
    by (simp add: firstOccurrences_def)
qed

lemma set_firstOccurrences_keys: "key ` set (firstOccurrences key xs) = key ` set xs"
  by (induction xs rule: rev_induct) (auto simp: firstOccurrences_Nil firstOccurrences_snoc)

lemma set_firstOccurrences_subset: "set (firstOccurrences key xs) \<subseteq> set xs"
  by (induction xs rule: rev_induct) (auto simp: firstOccurrences_Nil firstOccurrences_snoc)

lemma distinct_firstOccurrences: "distinct (map key (firstOccurrences key xs))"
proof (induction xs rule: rev_induct)
  case Nil
  show ?case by (simp add: firstOccurrences_Nil)
next
  case (snoc x xs)
  then show ?case
    using set_firstOccurrences_keys [of key xs] by (auto simp: firstOccurrences_snoc)
qed

lemma firstOccurrences_distinct:
  "distinct (map key xs) \<Longrightarrow> firstOccurrences key xs = xs"
  by (induction xs rule: rev_induct) (auto simp: firstOccurrences_Nil firstOccurrences_snoc)

lemma reduceUnique_snoc:
  "reduceUnique acc (xs @ [x]) =
     (case reduceUnique acc xs of
        Inl e \<Rightarrow> Inl e
      | Inr uniqueCaps \<Rightarrow> reduceUnique uniqueCaps [x])"
  by (induction xs arbitrary: acc) (auto split: sum.splits)

lemma getUniqueCapabilities_named:
  assumes "list_all hasName cs"
  shows "getUniqueCapabilities cs = Inr (firstOccurrences getCapabilityName cs)"
  using assms
proof (induction cs rule: rev_induct)
  case Nil
  show ?case by (simp add: getUniqueCapabilities_def firstOccurrences_Nil)
next
  case (snoc c cs)
  then have ih: "reduceUnique [] cs = Inr (firstOccurrences getCapabilityName cs)"
    and c: "hasName c" and cs: "list_all hasName cs"
    by (simp_all add: getUniqueCapabilities_def)
  have "list_all hasName (firstOccurrences getCapabilityName cs)"
    using cs set_firstOccurrences_subset [of getCapabilityName cs]
    by (auto simp: list_all_iff)
  then have "isRepeated (firstOccurrences getCapabilityName cs) c =
      Inr (getCapabilityName c \<in> getCapabilityName ` set cs)"
    using c by (simp add: isRepeated_named set_firstOccurrences_keys)
  then show ?case
    by (simp add: getUniqueCapabilities_def reduceUnique_snoc ih firstOccurrences_snoc)
qed

text \<open>
  Claim C4. On a list of changes whose names can all be derived, \<open>getUniqueCapabilities\<close>
  returns, in input order, exactly the changes that are the first with their derived
  name: the change at index \<open>i\<close> is kept when no change before it has its name, and
  dropped otherwise.
\<close>

theorem dedupe_first_occurrences:
  assumes "\<forall>c \<in> set cs. hasName c"
  shows "getUniqueCapabilities cs =
           Inr (map (nth cs)
                  (filter (\<lambda>i. getCapabilityName (cs ! i) \<notin> getCapabilityName ` set (take i cs))
                     [0..<length cs]))"
  using assms getUniqueCapabilities_named [of cs]
  by (simp add: list_all_iff firstOccurrences_def)

text \<open>
  Claim C5. On a list of changes whose names can all be derived, deduplication succeeds
  and deduplicating its result gives that result again.
\<close>

lemmas name_evals =
  hasName_def getCapabilityName_def matchNameHere_def isWordChar_def dq_def

lemma example_names:
  "getCapabilityName microphoneCap = Inr ''microphone''"
  "getCapabilityName internetClientCap = Inr ''internetClient''"
  "getCapabilityName microphoneAgainCap = Inr ''microphone''"
  by (simp_all add: name_evals microphoneCap_def internetClientCap_def microphoneAgainCap_def)

lemma example_caps_distinct:
  "microphoneCap \<noteq> internetClientCap" "microphoneCap \<noteq> microphoneAgainCap"
  "internetClientCap \<noteq> microphoneAgainCap"
  by (simp_all add: microphoneCap_def internetClientCap_def microphoneAgainCap_def)

theorem dedupe_first_occurrences_witness:
  "getUniqueCapabilities [microphoneCap, internetClientCap, microphoneAgainCap] =
     Inr [microphoneCap, internetClientCap]"
  using dedupe_first_occurrences [of "[microphoneCap, internetClientCap, microphoneAgainCap]"]
  by (simp add: hasName_iff example_names upt_rec [of 0] upt_rec [of 1] upt_rec [of 2]
      upt_rec [of 3])

theorem dedupe_idempotent:
  assumes "\<forall>c \<in> set cs. hasName c"
  shows "\<exists>out. getUniqueCapabilities cs = Inr out \<and> getUniqueCapabilities out = Inr out"
proof -
  let ?out = "firstOccurrences getCapabilityName cs"
  have cs: "list_all hasName cs"
    using assms by (simp add: list_all_iff)
  then have "list_all hasName ?out"
    using set_firstOccurrences_subset [of getCapabilityName cs] by (auto simp: list_all_iff)
  then have "getUniqueCapabilities ?out = Inr (firstOccurrences getCapabilityName ?out)"
    by (rule getUniqueCapabilities_named)
  also have "firstOccurrences getCapabilityName ?out = ?out"
    by (rule firstOccurrences_distinct) (rule distinct_firstOccurrences)
  finally show ?thesis
    using getUniqueCapabilities_named [OF cs] by simp
qed

theorem dedupe_idempotent_witness:
  "getUniqueCapabilities [microphoneCap, internetClientCap, microphoneAgainCap] =
     Inr [microphoneCap, internetClientCap] \<and>
   getUniqueCapabilities [microphoneCap, internetClientCap] =
     Inr [microphoneCap, internetClientCap]"
  using dedupe_idempotent [of "[microphoneCap, internetClientCap, microphoneAgainCap]"]
  by (auto simp: hasName_iff example_names getUniqueCapabilities_def)

subsection \<open>Sorting\<close>

lemma compareCapabilities_named:
  assumes "hasName a" and "hasName b"
  shows "compareCapabilities a b =
           Inr (if nameKey a < nameKey b then - 1 else if nameKey b < nameKey a then 1 else 0)"
  using assms by (simp add: compareCapabilities_def hasName_nameKey)

lemma compareCapabilities_unnamed:
  "\<not> hasName a \<or> \<not> hasName b \<Longrightarrow> compareCapabilities a b = Inl TypeError"
  by (auto simp: compareCapabilities_def not_hasName error_is_TypeError split: sum.splits)

text \<open>On changes with names, the sort is the library's stable insertion sort by name.\<close>

lemma sortInsert_named:
  assumes "hasName x" and "list_all hasName ys"
  shows "sortInsert compareCapabilities x ys = Inr (insort_key nameKey x ys)"
  using assms
  by (induction ys) (auto simp: compareCapabilities_named)

lemma arraySort_named:
  assumes "list_all hasName xs"
  shows "arraySort compareCapabilities xs = Inr (sort_key nameKey xs)"
  using assms
proof (induction xs)
  case Nil
  show ?case by simp
next
  case (Cons x xs)
  then have "list_all hasName (sort_key nameKey xs)"
    by (simp add: list_all_iff)
  with Cons show ?case
    by (simp add: sortInsert_named)
qed

lemma filter_key_distinct:
  assumes "distinct (map f xs)" and "k \<in> set xs"
  shows "filter (\<lambda>x. f k = f x) xs = [k]"
  using assms
proof (induction xs)
  case Nil
  then show ?case by simp
next
  case (Cons x xs)
  show ?case
  proof (cases "k = x")
    case True
    with Cons.prems have "filter (\<lambda>y. f k = f y) xs = []"
      by (auto simp: filter_empty_conv)
    with True show ?thesis by simp
  next
    case False
    with Cons.prems have "k \<in> set xs" "f k \<noteq> f x"
      by (auto simp: image_iff)
    with Cons show ?thesis by simp
  qed
qed

lemma sort_key_permutation:
  assumes "distinct (map f xs)" and "mset ys = mset xs"
  shows "sort_key f ys = sort_key f xs"
proof (rule properties_for_sort_key [symmetric])
  show "mset (sort_key f ys) = mset xs"
    using assms(2) by simp
  show "sorted (map f (sort_key f ys))"
    by simp
  fix k
  assume "k \<in> set (sort_key f ys)"
  then have k: "k \<in> set ys" "k \<in> set xs"
    using mset_eq_setD [OF assms(2)] by simp_all
  have "mset (map f ys) = mset (map f xs)"
    using assms(2) by simp
  then have dy: "distinct (map f ys)"
    using assms(1) by (metis mset_eq_imp_distinct_iff)
  have ds: "distinct (map f (sort_key f ys))"
    using dy by (metis distinct_map distinct_sort set_sort)
  have "filter (\<lambda>x. f k = f x) (sort_key f ys) = [k]"
    using ds k(1) by (intro filter_key_distinct) simp_all
  moreover have "filter (\<lambda>x. f k = f x) xs = [k]"
    using assms(1) k(2) by (rule filter_key_distinct)
  ultimately show "filter (\<lambda>x. f k = f x) (sort_key f ys) = filter (\<lambda>x. f k = f x) xs"
    by simp
qed

lemma distinct_names_keys:
  assumes "list_all hasName cs" and "distinct (map getCapabilityName cs)"
  shows "distinct (map nameKey cs)"
proof -
  let ?inr = "Inr :: string \<Rightarrow> error + string"
  have "map getCapabilityName cs = map (?inr \<circ> nameKey) cs"
    using assms(1) by (intro map_cong) (simp_all add: list_all_iff hasName_nameKey)
  then have "distinct (map ?inr (map nameKey cs))"
    using assms(2) by (simp only: map_map)
  then show ?thesis
    by (auto simp: distinct_map inj_on_def)
qed

text \<open>
  Claim C6. For a list \<open>cs\<close> of changes whose names can all be derived and are pairwise
  distinct, and any permutation \<open>p\<close> of \<open>cs\<close>, sorting \<open>p\<close> and sorting \<open>cs\<close> both succeed
  and give the same list.
\<close>

theorem sort_order_independent:
  assumes "\<forall>c \<in> set cs. hasName c" and "distinct (map getCapabilityName cs)"
    and "mset p = mset cs"
  shows "\<exists>out. sortCapabilities cs = Inr out \<and> sortCapabilities p = Inr out"
proof -
  have cs: "list_all hasName cs"
    using assms(1) by (simp add: list_all_iff)
  have "set p = set cs"
    using assms(3) by (rule mset_eq_setD)
  then have p: "list_all hasName p"
    using assms(1) by (simp add: list_all_iff)
  have "sort_key nameKey p = sort_key nameKey cs"
    using distinct_names_keys [OF cs assms(2)] assms(3) by (rule sort_key_permutation)
  then show ?thesis
    by (simp add: sortCapabilities_def arraySort_named cs p)
qed

theorem sort_order_independent_witness:
  "sortCapabilities [microphoneCap, internetClientCap] = Inr [internetClientCap, microphoneCap] \<and>
   sortCapabilities [internetClientCap, microphoneCap] = Inr [internetClientCap, microphoneCap]"
proof -
  have "sortCapabilities [internetClientCap, microphoneCap] = Inr [internetClientCap, microphoneCap]"
    by (simp add: sortCapabilities_def compareCapabilities_def example_names)
  then show ?thesis
    using sort_order_independent [of "[internetClientCap, microphoneCap]"
        "[microphoneCap, internetClientCap]"]
    by (auto simp: hasName_iff example_names)
qed

subsection \<open>When a missing name makes the callers throw\<close>

lemma reduceUnique_throws:
  assumes "uniqueCaps \<noteq> []" and "list_all hasName uniqueCaps"
  shows "reduceUnique uniqueCaps cs = Inl TypeError \<longleftrightarrow> (\<exists>c \<in> set cs. \<not> hasName c)"
  using assms
proof (induction cs arbitrary: uniqueCaps)
  case Nil
  show ?case by simp
next
  case (Cons c cs)
  show ?case
  proof (cases "hasName c")
    case True
    have "reduceUnique (uniqueCaps @ [c]) cs = Inl TypeError \<longleftrightarrow> (\<exists>c \<in> set cs. \<not> hasName c)"
      using Cons.prems True by (intro Cons.IH) simp_all
    moreover have "reduceUnique uniqueCaps cs = Inl TypeError \<longleftrightarrow> (\<exists>c \<in> set cs. \<not> hasName c)"
      using Cons.prems by (intro Cons.IH)
    ultimately show ?thesis
      using True Cons.prems by (simp add: isRepeated_named)
  next
    case False
    then have "isRepeated uniqueCaps c = Inl TypeError"
      using Cons.prems(1) by (intro isRepeated_unnamed) simp_all
    with False show ?thesis by auto
  qed
qed

lemma getUniqueCapabilities_throws:
  "getUniqueCapabilities cs = Inl TypeError \<longleftrightarrow> 2 \<le> length cs \<and> (\<exists>c \<in> set cs. \<not> hasName c)"
proof (cases cs)
  case Nil
  then show ?thesis by (simp add: getUniqueCapabilities_def)
next
  case (Cons c1 rest)
  show ?thesis
  proof (cases rest)
    case Nil
    with Cons show ?thesis by (simp add: getUniqueCapabilities_def)
  next
    case (Cons c2 rest')
    show ?thesis
    proof (cases "hasName c1")
      case True
      then have "reduceUnique [c1] rest = Inl TypeError \<longleftrightarrow> (\<exists>c \<in> set rest. \<not> hasName c)"
        by (intro reduceUnique_throws) simp_all
      with True Cons \<open>cs = c1 # rest\<close> show ?thesis
        by (simp add: getUniqueCapabilities_def)
    next
      case False
      then have "isRepeated [c1] c2 = Inl TypeError"
        by (intro isRepeated_unnamed) simp_all
      with False Cons \<open>cs = c1 # rest\<close> show ?thesis
        by (simp add: getUniqueCapabilities_def)
    qed
  qed
qed

lemma sortInsert_mset:
  "sortInsert comparefn x ys = Inr zs \<Longrightarrow> mset zs = add_mset x (mset ys)"
  by (induction ys arbitrary: zs) (auto split: sum.splits if_splits)

lemma arraySort_mset: "arraySort comparefn xs = Inr ys \<Longrightarrow> mset ys = mset xs"
  by (induction xs arbitrary: ys) (auto split: sum.splits dest: sortInsert_mset)

lemma sortInsert_throws:
  assumes "ys \<noteq> []" and "\<not> hasName x \<or> \<not> hasName (hd ys)"
  shows "sortInsert compareCapabilities x ys = Inl TypeError"
  using assms by (cases ys) (simp_all add: compareCapabilities_unnamed)

lemma sortCapabilities_throws:
  "sortCapabilities cs = Inl TypeError \<longleftrightarrow> 2 \<le> length cs \<and> (\<exists>c \<in> set cs. \<not> hasName c)"
  unfolding sortCapabilities_def
proof (induction cs)
  case Nil
  show ?case by simp
next
  case (Cons x xs)
  show ?case
  proof (cases "arraySort compareCapabilities xs")
    case (Inl e)
    then have "arraySort compareCapabilities xs = Inl TypeError"
      by (simp add: error_is_TypeError)
    with Cons show ?thesis by auto
  next
    case (Inr ys)
    then have ms: "mset ys = mset xs"
      by (rule arraySort_mset)
    then have len: "length ys = length xs" and set: "set ys = set xs"
      by (metis size_mset, metis set_mset_mset)
    from Inr Cons have small: "\<not> (2 \<le> length xs \<and> (\<exists>c \<in> set xs. \<not> hasName c))"
      by simp
    show ?thesis
    proof (cases "hasName x \<and> list_all hasName ys")
      case True
      then show ?thesis
        using Inr set by (auto simp: sortInsert_named list_all_iff)
    next
      case False
      show ?thesis
      proof (cases ys)
        case Nil
        with Inr len show ?thesis by simp
      next
        case (Cons y ys')
        have "\<not> hasName x \<or> \<not> hasName (hd ys)"
        proof (cases "hasName x")
          case True
          with False obtain c where c: "c \<in> set xs" "\<not> hasName c"
            using set by (auto simp: list_all_iff)
          with small have "length xs < 2" by auto
          with len Cons have "ys = [y]" by (cases ys') simp_all
          with c set show ?thesis by auto
        next
          case False
          then show ?thesis by simp
        qed
        then have "sortInsert compareCapabilities x ys = Inl TypeError"
          using Cons by (intro sortInsert_throws) simp_all
        moreover have "2 \<le> length (x # xs)"
          using len Cons by simp
        moreover have "\<exists>c \<in> set (x # xs). \<not> hasName c"
          using False set by (auto simp: list_all_iff)
        ultimately show ?thesis
          using Inr by simp
      qed
    qed
  qed
qed

lemma mapThrowing_throws:
  "mapThrowing f xs = Inl TypeError \<longleftrightarrow> (\<exists>x \<in> set xs. f x = Inl TypeError)"
  by (induction xs) (auto simp: error_is_TypeError split: sum.splits)

lemma mapThrowing_total:
  "\<forall>x \<in> set xs. f x = Inr (g x) \<Longrightarrow> mapThrowing f xs = Inr (map g xs)"
  by (induction xs) simp_all

lemma createPrefixedCapabilityChange_A_throws:
  "createPrefixedCapabilityChange_A caps c = Inl TypeError \<longleftrightarrow> \<not> hasName c"
  by (auto simp: createPrefixedCapabilityChange_A_def not_hasName error_is_TypeError
      split: sum.splits)

lemma generateUapCapabilities_A_throws:
  "generateUapCapabilities_A caps cs = Inl TypeError \<longleftrightarrow>
     (\<exists>c \<in> set cs. hasCapabilityChange c \<and> \<not> hasName c)"
  by (auto simp: generateUapCapabilities_A_def mapThrowing_throws
      createPrefixedCapabilityChange_A_throws)


text \<open>
  Claim C9, as the code has it. The derivation of the name throws exactly when no
  substring of \<open>xml\<close> matches the name-extraction pattern, and otherwise returns the
  value of the leftmost match. Its callers throw when they come to call it on a change
  without a name: deduplication and sorting when the list has at least two elements,
  one of them without a name (a list of one element is returned with no name derived),
  and the prefixing of Variant A when a change without a name passes the test for a
  capability element (other changes are dropped before any name is derived).
\<close>

theorem name_derivation_errors:
  "(getCapabilityName c = Inl TypeError \<longleftrightarrow> (\<forall>pre w. \<not> nameMatchAt (xml c) pre w)) \<and>
   (getCapabilityName c = Inr w \<longleftrightarrow>
      (\<exists>pre. nameMatchAt (xml c) pre w \<and>
             (\<forall>pre' w'. nameMatchAt (xml c) pre' w' \<longrightarrow> length pre \<le> length pre'))) \<and>
   (getUniqueCapabilities cs = Inl TypeError \<longleftrightarrow>
      2 \<le> length cs \<and> (\<exists>c \<in> set cs. getCapabilityName c = Inl TypeError)) \<and>
   (sortCapabilities cs = Inl TypeError \<longleftrightarrow>
      2 \<le> length cs \<and> (\<exists>c \<in> set cs. getCapabilityName c = Inl TypeError)) \<and>
   (generateUapCapabilities_A caps cs = Inl TypeError \<longleftrightarrow>
      (\<exists>c \<in> set cs. hasCapabilityChange c \<and> getCapabilityName c = Inl TypeError))"
proof (intro conjI)
  show "getCapabilityName c = Inl TypeError \<longleftrightarrow> (\<forall>pre w. \<not> nameMatchAt (xml c) pre w)"
    using matchName_None_iff [of "xml c"]
    by (cases "matchName (xml c)") (simp_all add: getCapabilityName_def)
  show "getCapabilityName c = Inr w \<longleftrightarrow>
      (\<exists>pre. nameMatchAt (xml c) pre w \<and>
             (\<forall>pre' w'. nameMatchAt (xml c) pre' w' \<longrightarrow> length pre \<le> length pre'))"
    using matchName_Some_iff [of "xml c" w]
    by (auto simp: getCapabilityName_def split: option.splits)
  show "getUniqueCapabilities cs = Inl TypeError \<longleftrightarrow>
      2 \<le> length cs \<and> (\<exists>c \<in> set cs. getCapabilityName c = Inl TypeError)"
    by (simp add: getUniqueCapabilities_throws not_hasName)
  show "sortCapabilities cs = Inl TypeError \<longleftrightarrow>
      2 \<le> length cs \<and> (\<exists>c \<in> set cs. getCapabilityName c = Inl TypeError)"
    by (simp add: sortCapabilities_throws not_hasName)
  show "generateUapCapabilities_A caps cs = Inl TypeError \<longleftrightarrow>
      (\<exists>c \<in> set cs. hasCapabilityChange c \<and> getCapabilityName c = Inl TypeError)"
    by (simp add: generateUapCapabilities_A_throws not_hasName)
qed

lemmas tag_evals = hasCapabilityChange_def testCapabilityTag_def isSpaceChar_def

lemma example_unnamed:
  "getCapabilityName unnamedCap = Inl TypeError" "hasCapabilityChange unnamedCap"
  "getCapabilityName extensionCap = Inl TypeError" "\<not> hasCapabilityChange extensionCap"
  by (simp_all add: name_evals tag_evals unnamedCap_def extensionCap_def)

theorem name_derivation_errors_witness:
  "getCapabilityName unnamedCap = Inl TypeError \<and>
   getUniqueCapabilities [microphoneCap, unnamedCap] = Inl TypeError \<and>
   sortCapabilities [microphoneCap, unnamedCap] = Inl TypeError \<and>
   generateUapCapabilities_A someCapsNeedUapPrefix [microphoneCap, unnamedCap] = Inl TypeError"
  using name_derivation_errors
    [of unnamedCap "[]" "[microphoneCap, unnamedCap]" someCapsNeedUapPrefix]
  by (simp add: example_unnamed)

text \<open>
  A change without a name, alone in its list, goes through deduplication and sorting,
  and the prefixing drops it: none of the three throws.
\<close>

theorem name_derivation_errors_counterexample:
  "getCapabilityName extensionCap = Inl TypeError \<and>
   getUniqueCapabilities [extensionCap] = Inr [extensionCap] \<and>
   sortCapabilities [extensionCap] = Inr [extensionCap] \<and>
   generateUapCapabilities_A someCapsNeedUapPrefix [extensionCap] = Inr []"
  by (simp add: example_unnamed getUniqueCapabilities_def sortCapabilities_def
      generateUapCapabilities_A_def)

subsection \<open>Prefixing, Variant A\<close>

lemma generateUapCapabilities_A_named:
  assumes "\<forall>c \<in> set cs. hasCapabilityChange c \<longrightarrow> hasName c"
  shows "generateUapCapabilities_A caps cs =
           Inr (map (\<lambda>c. if nameKey c \<in> set caps
                          then \<lparr>xml = uapXml (xml c), count = count c, before = before c\<rparr>
                          else c)
                  (filter hasCapabilityChange cs))"
  unfolding generateUapCapabilities_A_def
  using assms
  by (intro mapThrowing_total)
     (auto simp: createPrefixedCapabilityChange_A_def hasName_nameKey)

text \<open>
  Claim C3, as the code has it. A change that passes the test for a capability element
  and whose derived name is not in \<open>CapsNeedUapPrefix\<close> is not excluded: Variant A's
  \<open>generateUapCapabilities\<close> returns it unchanged in its output list, which has one
  element for each change that passes the test. (Every change that passes the test
  must have a name, or the call throws.)
\<close>

theorem prefix_passthrough:
  assumes "\<forall>c \<in> set cs. hasCapabilityChange c \<longrightarrow> hasName c"
    and "c \<in> set cs" and "hasCapabilityChange c"
    and "getCapabilityName c = Inr name" and "name \<notin> set caps"
  shows "\<exists>out. generateUapCapabilities_A caps cs = Inr out \<and> c \<in> set out \<and>
           length out = length (filter hasCapabilityChange cs)"
proof -
  have "nameKey c = name"
    using assms(4) by (simp add: nameKey_def)
  then have "(if nameKey c \<in> set caps
              then \<lparr>xml = uapXml (xml c), count = count c, before = before c\<rparr> else c) = c"
    using assms(5) by simp
  moreover have "c \<in> set (filter hasCapabilityChange cs)"
    using assms(2,3) by simp
  ultimately have "c \<in> set (map (\<lambda>c. if nameKey c \<in> set caps
                          then \<lparr>xml = uapXml (xml c), count = count c, before = before c\<rparr>
                          else c) (filter hasCapabilityChange cs))"
    unfolding set_map by (intro image_eqI [where x = c]) simp_all
  then show ?thesis
    by (simp add: generateUapCapabilities_A_named [OF assms(1)])
qed

lemma example_tags:
  "hasCapabilityChange internetClientCap" "hasCapabilityChange musicLibraryCap"
  "getCapabilityName musicLibraryCap = Inr ''musicLibrary''"
  by (simp_all add: name_evals tag_evals internetClientCap_def musicLibraryCap_def)

lemma example_prefixed:
  "createPrefixedCapabilityChange_A someCapsNeedUapPrefix internetClientCap =
     Inr internetClientCap"
  "createPrefixedCapabilityChange_A someCapsNeedUapPrefix musicLibraryCap =
     Inr \<lparr>xml = ''<uap:Capability Name=\"musicLibrary\" />'', count = 1, before = None\<rparr>"
   apply (simp_all add: createPrefixedCapabilityChange_A_def example_names example_tags
      someCapsNeedUapPrefix_def)
  apply (simp add: musicLibraryCap_def)
  done

theorem prefix_passthrough_witness:
  "generateUapCapabilities_A someCapsNeedUapPrefix [internetClientCap] = Inr [internetClientCap]"
proof -
  obtain out where out: "generateUapCapabilities_A someCapsNeedUapPrefix [internetClientCap] = Inr out"
      "internetClientCap \<in> set out" "length out = 1"
    using prefix_passthrough [of "[internetClientCap]" internetClientCap "''internetClient''"
        someCapsNeedUapPrefix]
    by (auto simp: hasName_iff example_names example_tags someCapsNeedUapPrefix_def)
  then have "out = [internetClientCap]"
    by (cases out) auto
  with out(1) show ?thesis by simp
qed

text \<open>The change is in the output, not excluded from it.\<close>

theorem prefix_exclusion_counterexample:
  "hasCapabilityChange internetClientCap \<and>
   getCapabilityName internetClientCap = Inr ''internetClient'' \<and>
   ''internetClient'' \<notin> set someCapsNeedUapPrefix \<and>
   generateUapCapabilities_A someCapsNeedUapPrefix [extensionCap, internetClientCap, musicLibraryCap] =
     Inr [internetClientCap,
          \<lparr>xml = ''<uap:Capability Name=\"musicLibrary\" />'', count = 1, before = None\<rparr>]"
proof -
  have "''internetClient'' \<notin> set someCapsNeedUapPrefix"
    by (simp add: someCapsNeedUapPrefix_def)
  then show ?thesis
    by (simp add: example_names example_tags example_unnamed example_prefixed
        generateUapCapabilities_A_def)
qed

subsection \<open>Prefixing, Variant B\<close>

lemma replaceFirst_skip:
  assumes "\<forall>c \<in> set ws. c \<noteq> p"
  shows "replaceFirst (p # pat) rep (ws @ u) = ws @ replaceFirst (p # pat) rep u"
  using assms by (induction ws) auto

lemma space_not_C: "isSpaceChar c \<Longrightarrow> c \<noteq> CHR ''C''"
  by (auto simp: isSpaceChar_def)

lemma lt_not_space: "\<not> isSpaceChar CHR ''<''"
  by (simp add: isSpaceChar_def)

text \<open>The first occurrence of \<open>Capability\<close> in a capability element is its tag name.\<close>

lemma uapXml_tag:
  assumes "testCapabilityTag s"
  shows "testUapCapabilityTag (uapXml s)"
proof -
  let ?ws = "takeWhile isSpaceChar s" and ?r = "dropWhile isSpaceChar s"
  from assms obtain u where r: "?r = ''<Capability'' @ u"
    by (auto simp: testCapabilityTag_def Let_def prefix_def)
  with assms obtain t u' where u: "u = t # u'" and t: "isSpaceChar t"
    by (auto simp: testCapabilityTag_def Let_def split: list.splits)
  have s: "s = ?ws @ ''<Capability'' @ t # u'"
    using takeWhile_dropWhile_id [of isSpaceChar s] r u by simp
  have ws: "\<forall>c \<in> set ?ws. isSpaceChar c"
    by (auto dest: set_takeWhileD)
  then have "uapXml (?ws @ ''<Capability'' @ t # u') =
      ?ws @ uapXml (''<Capability'' @ t # u')"
    by (intro replaceFirst_skip) (auto dest: space_not_C)
  also have "uapXml (''<Capability'' @ t # u') = ''<uap:Capability'' @ t # u'"
    by simp
  finally have x: "uapXml s = ?ws @ ''<uap:Capability'' @ t # u'"
    using s by simp
  have "dropWhile isSpaceChar (?ws @ ''<uap:Capability'' @ t # u') = ''<uap:Capability'' @ t # u'"
    using ws lt_not_space by (simp add: dropWhile_append)
  then show ?thesis
    unfolding x using t by (simp add: testUapCapabilityTag_def)
qed

lemma uapChanges_prefixed: "r \<in> set (uapChanges changes) \<Longrightarrow> testUapCapabilityTag (xml r)"
  by (auto simp: uapChanges_def createPrefixedCapabilityChange_B_def hasCapabilityChange_def
      intro: uapXml_tag)

lemma uapReducer_known:
  assumes "map_of (props (parents m)) selector = Some changes"
  shows "uapReducer m result selector =
           Inr (result\<lparr>parents := assignProperty selector (uapChanges changes) (parents result)\<rparr>)"
  using assms by (simp add: uapReducer_def uapChanges_def)

lemma props_assignProperty:
  "props (assignProperty key value obj) =
     (if key = ''__proto__'' then props obj else AList.update key value (props obj))"
  by (simp add: assignProperty_def)

lemma proto_assignProperty:
  "proto (assignProperty key value obj) = (if key = ''__proto__'' then Some value else proto obj)"
  by (simp add: assignProperty_def)

text \<open>
  The loop over a list of selectors that the input has: it cannot throw. Each selector
  other than \<open>__proto__\<close> becomes an own property of the result, with the prefixed
  capability changes of the input as its value, and what the accumulator had under
  other keys stays. The selector \<open>__proto__\<close> becomes no own property: its value ends
  up as the prototype of the result.
\<close>

lemma reduceThrowing_uapReducer:
  assumes "set ks \<subseteq> fst ` set (props (parents m))"
  shows "\<exists>out. reduceThrowing (uapReducer m) acc ks = Inr out \<and>
           fst ` set (props (parents out)) =
             (set ks - {''__proto__''}) \<union> fst ` set (props (parents acc)) \<and>
           (distinct (map fst (props (parents acc))) \<longrightarrow>
              distinct (map fst (props (parents out)))) \<and>
           (\<forall>selector. map_of (props (parents out)) selector =
              (if selector \<in> set ks \<and> selector \<noteq> ''__proto__''
               then map_option uapChanges (map_of (props (parents m)) selector)
               else map_of (props (parents acc)) selector)) \<and>
           proto (parents out) =
             (if ''__proto__'' \<in> set ks
              then map_option uapChanges (map_of (props (parents m)) ''__proto__'')
              else proto (parents acc))"
  using assms
proof (induction ks arbitrary: acc)
  case Nil
  show ?case by simp
next
  case (Cons k ks)
  then obtain changes where k: "map_of (props (parents m)) k = Some changes"
    by (metis domD dom_map_of_conv_image_fst list.set_intros(1) subsetD)
  let ?acc = "acc\<lparr>parents := assignProperty k (uapChanges changes) (parents acc)\<rparr>"
  from Cons.prems have "set ks \<subseteq> fst ` set (props (parents m))"
    by simp
  from Cons.IH [OF this, of ?acc] obtain out
    where out: "reduceThrowing (uapReducer m) ?acc ks = Inr out"
      and keys: "fst ` set (props (parents out)) =
             (set ks - {''__proto__''}) \<union> fst ` set (props (parents ?acc))"
      and dist: "distinct (map fst (props (parents ?acc))) \<longrightarrow>
              distinct (map fst (props (parents out)))"
      and vals: "\<And>selector. map_of (props (parents out)) selector =
              (if selector \<in> set ks \<and> selector \<noteq> ''__proto__''
               then map_option uapChanges (map_of (props (parents m)) selector)
               else map_of (props (parents ?acc)) selector)"
      and prot: "proto (parents out) =
             (if ''__proto__'' \<in> set ks
              then map_option uapChanges (map_of (props (parents m)) ''__proto__'')
              else proto (parents ?acc))"
    by blast
  have "reduceThrowing (uapReducer m) acc (k # ks) = Inr out"
    using out by (simp add: uapReducer_known [OF k])
  moreover have "fst ` set (props (parents out)) =
             (set (k # ks) - {''__proto__''}) \<union> fst ` set (props (parents acc))"
    using keys by (auto simp: props_assignProperty dom_update split: if_splits)
  moreover have "distinct (map fst (props (parents acc))) \<longrightarrow>
              distinct (map fst (props (parents out)))"
    using dist by (simp add: props_assignProperty distinct_update)
  moreover have "map_of (props (parents out)) selector =
      (if selector \<in> set (k # ks) \<and> selector \<noteq> ''__proto__''
       then map_option uapChanges (map_of (props (parents m)) selector)
       else map_of (props (parents acc)) selector)" for selector
    using vals [of selector] k by (auto simp: props_assignProperty update_conv')
  moreover have "proto (parents out) =
             (if ''__proto__'' \<in> set (k # ks)
              then map_option uapChanges (map_of (props (parents m)) ''__proto__'')
              else proto (parents acc))"
    using prot k by (auto simp: proto_assignProperty)
  ultimately show ?case
    by blast
qed

text \<open>
  What Variant B's \<open>generateUapCapabilities\<close> returns, for every munge. It does not
  throw. The own selectors of the result are those of the input other than
  \<open>__proto__\<close>, each once; under each stand the changes of the input that are
  capability elements, every one of them rewritten by \<open>createPrefixedCapabilityChange\<close>
  with no further condition, so a selector without such changes maps to the empty list
  and the \<open>xml\<close> of every change in the result begins with the prefixed tag. A selector
  \<open>__proto__\<close> of the input is no own selector of the result; its prefixed changes are
  the prototype of the result's \<open>parents\<close> object.
\<close>

lemma uap_munge_selectors:
  "\<exists>out. generateUapCapabilities_B m = Inr out \<and>
     fst ` set (props (parents out)) = fst ` set (props (parents m)) - {''__proto__''} \<and>
     distinct (map fst (props (parents out))) \<and>
     (\<forall>selector. map_of (props (parents out)) selector =
        (if selector = ''__proto__'' then None
         else map_option uapChanges (map_of (props (parents m)) selector))) \<and>
     proto (parents out) = map_option uapChanges (map_of (props (parents m)) ''__proto__'') \<and>
     (\<forall>selector changes r.
        map_of (props (parents out)) selector = Some changes \<and> r \<in> set changes
        \<longrightarrow> testUapCapabilityTag (xml r))"
proof -
  let ?init = "\<lparr>parents = \<lparr>props = [], proto = None\<rparr>\<rparr>"
  let ?ks = "map fst (props (parents m))"
  have "set ?ks \<subseteq> fst ` set (props (parents m))"
    by simp
  from reduceThrowing_uapReducer [OF this, of ?init] obtain out
    where out: "reduceThrowing (uapReducer m) ?init ?ks = Inr out"
      and keys: "fst ` set (props (parents out)) =
                   (set ?ks - {''__proto__''}) \<union> fst ` set (props (parents ?init))"
      and dist: "distinct (map fst (props (parents ?init))) \<longrightarrow>
                   distinct (map fst (props (parents out)))"
      and vals: "\<And>selector. map_of (props (parents out)) selector =
              (if selector \<in> set ?ks \<and> selector \<noteq> ''__proto__''
               then map_option uapChanges (map_of (props (parents m)) selector)
               else map_of (props (parents ?init)) selector)"
      and prot: "proto (parents out) =
             (if ''__proto__'' \<in> set ?ks
              then map_option uapChanges (map_of (props (parents m)) ''__proto__'')
              else proto (parents ?init))"
    by blast
  have none: "map_of (props (parents m)) selector = None"
    if "selector \<notin> set ?ks" for selector
    using that by (simp add: map_of_eq_None_iff)
  have 1: "generateUapCapabilities_B m = Inr out"
    using out by (simp add: generateUapCapabilities_B_def)
  have 2: "fst ` set (props (parents out)) = fst ` set (props (parents m)) - {''__proto__''}"
    using keys by simp
  have 3: "distinct (map fst (props (parents out)))"
    using dist by simp
  have 4: "map_of (props (parents out)) selector =
      (if selector = ''__proto__'' then None
       else map_option uapChanges (map_of (props (parents m)) selector))"
    for selector
  proof (cases "selector \<in> set ?ks")
    case True
    with vals [of selector] show ?thesis by simp
  next
    case False
    with vals [of selector] none [OF False] show ?thesis by simp
  qed
  have 5: "proto (parents out) = map_option uapChanges (map_of (props (parents m)) ''__proto__'')"
  proof (cases "''__proto__'' \<in> set ?ks")
    case True
    with prot show ?thesis by simp
  next
    case False
    with prot none [OF False] show ?thesis by simp
  qed
  have 6: "testUapCapabilityTag (xml r)"
    if "map_of (props (parents out)) selector = Some changes \<and> r \<in> set changes"
    for selector changes r
  proof -
    from that 4 [of selector] obtain cs where "changes = uapChanges cs"
      by (cases "selector = ''__proto__''") auto
    with that show ?thesis
      by (auto dest: uapChanges_prefixed)
  qed
  from 1 2 3 4 5 6 show ?thesis
    by (intro exI [of _ out] conjI allI impI)
qed

lemma uap_munge_example:
  "generateUapCapabilities_B someMunge =
     Inr \<lparr>parents =
            \<lparr>props =
               [(''/Package/Capabilities'',
                   [\<lparr>xml = ''<uap:Capability Name=\"internetClient\" />'', count = 1,
                     before = None\<rparr>,
                    \<lparr>xml = ''  <uap:Capability   Name=\"microphone\"/>'', count = 2,
                     before = None\<rparr>]),
                (''/Package/Extensions'', [])],
             proto = None\<rparr>\<rparr>"
proof -
  have tags: "hasCapabilityChange internetClientCap" "hasCapabilityChange microphoneAgainCap"
    "\<not> hasCapabilityChange extensionCap"
    by (simp_all add: tag_evals internetClientCap_def microphoneAgainCap_def extensionCap_def)
  have prefixed:
    "createPrefixedCapabilityChange_B internetClientCap =
       \<lparr>xml = ''<uap:Capability Name=\"internetClient\" />'', count = 1, before = None\<rparr>"
    "createPrefixedCapabilityChange_B microphoneAgainCap =
       \<lparr>xml = ''  <uap:Capability   Name=\"microphone\"/>'', count = 2, before = None\<rparr>"
    by (simp_all add: createPrefixedCapabilityChange_B_def internetClientCap_def
        microphoneAgainCap_def)
  show ?thesis
    by (simp add: generateUapCapabilities_B_def uapReducer_def assignProperty_def someMunge_def
        tags prefixed)
qed

text \<open>
  Claim C8 at a concrete munge. The input has the two selectors
  \<open>/Package/Capabilities\<close> and \<open>__proto__\<close> as own keys. The result of Variant B's
  \<open>generateUapCapabilities\<close> has the first selector only: the assignment to
  \<open>result.parents['__proto__']\<close> has made the empty list of prefixed changes the
  prototype of the \<open>parents\<close> object and has created no key, so the selector is absent
  instead of present with an empty list.
\<close>

theorem uap_munge_loses_proto_selector:
  "generateUapCapabilities_B protoMunge =
     Inr \<lparr>parents =
            \<lparr>props =
               [(''/Package/Capabilities'',
                   [\<lparr>xml = ''<uap:Capability Name=\"internetClient\" />'', count = 1,
                     before = None\<rparr>])],
             proto = Some []\<rparr>\<rparr> \<and>
   map fst (props (parents protoMunge)) = [''/Package/Capabilities'', ''__proto__'']"
proof -
  have tags: "hasCapabilityChange internetClientCap" "\<not> hasCapabilityChange extensionCap"
    by (simp_all add: tag_evals internetClientCap_def extensionCap_def)
  have prefixed:
    "createPrefixedCapabilityChange_B internetClientCap =
       \<lparr>xml = ''<uap:Capability Name=\"internetClient\" />'', count = 1, before = None\<rparr>"
    by (simp add: createPrefixedCapabilityChange_B_def internetClientCap_def)
  show ?thesis
    by (simp add: generateUapCapabilities_B_def uapReducer_def assignProperty_def protoMunge_def
        tags prefixed)
qed

end
